theory Spec2Isabelle
  imports Main "HOL-Library.Word"
begin

section \<open>Data model\<close>

text \<open>
  A colour is the Python tuple \<open>(r, g, b)\<close> of three unbounded integers; a palette is
  a list of colours. The contents of a binary file are a list of bytes. A text is the
  decoded content of a text file, one \<open>char\<close> per code point: the model covers the
  code points below 256, with Python's classification of them (white space, digits).
  Conversions between integers and decimal strings raise \<open>ValueError\<close> beyond the
  interpreter's limit on the number of digits, at its default of 4300.
\<close>

type_synonym byte = "8 word"
type_synonym color = "int \<times> int \<times> int"

datatype py_error = StructError | ValueError

section \<open>The struct module\<close>

text \<open>
  \<open>pack('3B', r, g, b)\<close> raises \<open>struct.error\<close> unless each argument is in
  \<open>0..255\<close>; \<open>pack('>H', n)\<close> unless \<open>n\<close> is in \<open>0..65535\<close>. \<open>unpack\<close> raises
  \<open>struct.error\<close> unless the buffer has exactly the size of the format.
\<close>

definition pack_3B :: "int \<Rightarrow> int \<Rightarrow> int \<Rightarrow> py_error + byte list" where
  "pack_3B r g b =
     (if 0 \<le> r \<and> r \<le> 255 \<and> 0 \<le> g \<and> g \<le> 255 \<and> 0 \<le> b \<and> b \<le> 255
      then Inr [word_of_int r, word_of_int g, word_of_int b]
      else Inl StructError)"

definition pack_H :: "int \<Rightarrow> py_error + byte list" where
  "pack_H n =
     (if 0 \<le> n \<and> n \<le> 65535
      then Inr [word_of_int (n div 256), word_of_int (n mod 256)]
      else Inl StructError)"

definition unpack_3B :: "byte list \<Rightarrow> py_error + color" where
  "unpack_3B buf =
     (case buf of
        [r, g, b] \<Rightarrow> Inr (uint r, uint g, uint b)
      | _ \<Rightarrow> Inl StructError)"

definition unpack_H :: "byte list \<Rightarrow> py_error + int" where
  "unpack_H buf =
     (case buf of
        [hi, lo] \<Rightarrow> Inr (256 * uint hi + uint lo)
      | _ \<Rightarrow> Inl StructError)"

section \<open>Binary files open for reading\<close>

record rfile =
  data :: "byte list"
  pos :: nat

definition fopen :: "byte list \<Rightarrow> rfile" where
  "fopen contents = \<lparr>data = contents, pos = 0\<rparr>"

definition fseek :: "nat \<Rightarrow> rfile \<Rightarrow> rfile" where
  "fseek off f = f\<lparr>pos := off\<rparr>"

text \<open>\<open>file.read(n)\<close> returns the bytes that are left, at most \<open>n\<close>, and advances.\<close>

definition fread :: "nat \<Rightarrow> rfile \<Rightarrow> byte list \<times> rfile" where
  "fread n f =
     (let chunk = take n (drop (pos f) (data f))
      in (chunk, f\<lparr>pos := pos f + length chunk\<rparr>))"

section \<open>ACT reader\<close>

text \<open>
  The comprehension \<open>[struct.unpack('3B', file.read(3)) for i in range(nbcolors)]\<close>:
  the first short read raises and no list is returned.
\<close>

fun read_colors :: "nat \<Rightarrow> rfile \<Rightarrow> py_error + color list" where
  "read_colors 0 f = Inr []"
| "read_colors (Suc n) f =
     (case fread 3 f of
        (chunk, f') \<Rightarrow>
          (case unpack_3B chunk of
             Inl e \<Rightarrow> Inl e
           | Inr c \<Rightarrow>
               (case read_colors n f' of
                  Inl e \<Rightarrow> Inl e
                | Inr cs \<Rightarrow> Inr (c # cs))))"

text \<open>
  \<open>parse_adobe_act\<close> of GUI.py, on the contents of the file it opens;
  \<open>os.path.getsize\<close> is the length of the contents.
\<close>

definition parse_adobe_act :: "byte list \<Rightarrow> py_error + color list" where
  "parse_adobe_act contents =
     (let filesize = length contents;
          file = fopen contents
      in if filesize = 772
         then (case fread 2 (fseek 768 file) of
                 (buf, file1) \<Rightarrow>
                   (case unpack_H buf of
                      Inl e \<Rightarrow> Inl e
                    | Inr nbcolors \<Rightarrow> read_colors (nat nbcolors) (fseek 0 file1)))
         else read_colors (filesize div 3) file)"

section \<open>ACT writer\<close>

text \<open>The loop \<open>for r, g, b in ...: f.write(pack('3B', r, g, b))\<close>, as the bytes written.\<close>

fun write_colors :: "color list \<Rightarrow> py_error + byte list" where
  "write_colors [] = Inr []"
| "write_colors ((r, g, b) # cs) =
     (case pack_3B r g b of
        Inl e \<Rightarrow> Inl e
      | Inr bs \<Rightarrow>
          (case write_colors cs of
             Inl e \<Rightarrow> Inl e
           | Inr rest \<Rightarrow> Inr (bs @ rest)))"

text \<open>
  The loop \<open>for _ in range(k): f.write(pack('3B', 0, 0, 0))\<close>; \<open>range(k)\<close> is empty
  for a negative \<open>k\<close>, which \<open>nat k = 0\<close> gives.
\<close>

fun write_padding :: "nat \<Rightarrow> py_error + byte list" where
  "write_padding 0 = Inr []"
| "write_padding (Suc k) =
     (case pack_3B 0 0 0 of
        Inl e \<Rightarrow> Inl e
      | Inr bs \<Rightarrow>
          (case write_padding k of
             Inl e \<Rightarrow> Inl e
           | Inr rest \<Rightarrow> Inr (bs @ rest)))"

text \<open>
  \<open>create_act_file\<close> (the same in main.py and GUI.py), as the contents of the file
  when it returns, or the exception it raises.
\<close>

definition create_act_file :: "color list \<Rightarrow> py_error + byte list" where
  "create_act_file colors =
     (case write_colors (take 256 colors) of
        Inl e \<Rightarrow> Inl e
      | Inr body \<Rightarrow>
          (case write_padding (nat (256 - int (length colors))) of
             Inl e \<Rightarrow> Inl e
           | Inr padding \<Rightarrow>
               if length colors > 0 \<and> length colors < 256
               then (case pack_H (int (length colors)) of
                       Inl e \<Rightarrow> Inl e
                     | Inr count \<Rightarrow> Inr (body @ padding @ count))
               else Inr (body @ padding)))"

section \<open>Characters and strings\<close>

text \<open>
  The code points below 256 for which \<open>str.isspace\<close> holds; \<open>str.strip()\<close> and the
  pattern \<open>\s\<close> of the \<open>re\<close> module use the same class.
\<close>

definition whitespace :: "char list" where
  "whitespace =
     [CHR 0x09, CHR 0x0A, CHR 0x0B, CHR 0x0C, CHR 0x0D, CHR 0x1C, CHR 0x1D, CHR 0x1E,
      CHR 0x1F, CHR 0x20, CHR 0x85, CHR 0xA0]"

definition isspace :: "char \<Rightarrow> bool" where
  "isspace c = (c \<in> set whitespace)"

text \<open>
  \<open>str.isdigit\<close> holds of a non-empty string of digit characters. Below 256 these are
  the decimal digits and the superscripts two, three and one, which \<open>int\<close> rejects.
\<close>

definition isdecimal_char :: "char \<Rightarrow> bool" where
  "isdecimal_char c = (c \<in> set ''0123456789'')"

definition isdigit_char :: "char \<Rightarrow> bool" where
  "isdigit_char c = (isdecimal_char c \<or> c \<in> set [CHR 0xB2, CHR 0xB3, CHR 0xB9])"

definition isdigit :: "string \<Rightarrow> bool" where
  "isdigit s = (s \<noteq> [] \<and> list_all isdigit_char s)"

definition digit_value :: "char \<Rightarrow> int" where
  "digit_value c = of_char c - 48"

text \<open>The value of a string of decimal digits, the first digit the most significant.\<close>

definition decimal_value :: "string \<Rightarrow> int" where
  "decimal_value s = foldl (\<lambda>acc c. 10 * acc + digit_value c) 0 s"

text \<open>
  The interpreter's limit on the digits of a conversion between \<open>int\<close> and \<open>str\<close>
  (\<open>sys.get_int_max_str_digits()\<close>), at its default.
\<close>

definition int_max_str_digits :: nat where
  "int_max_str_digits = 4300"

text \<open>
  \<open>int(x)\<close> on a token for which \<open>x.isdigit()\<close> holds (it has no sign, no white space
  and no underscore): the value of the decimal digits, or \<open>ValueError\<close> when a
  character is not a decimal digit or the token has more digits than the limit,
  leading zeros counted.
\<close>

definition py_int :: "string \<Rightarrow> py_error + int" where
  "py_int s =
     (if s \<noteq> [] \<and> list_all isdecimal_char s \<and> length s \<le> int_max_str_digits
      then Inr (decimal_value s)
      else Inl ValueError)"

definition strip :: "string \<Rightarrow> string" where
  "strip s = rev (dropWhile isspace (rev (dropWhile isspace s)))"

definition startswith :: "string \<Rightarrow> string \<Rightarrow> bool" where
  "startswith s prefix = (take (length prefix) s = prefix)"

text \<open>
  \<open>re.split(r'\s+', s)\<close>: the pieces of \<open>s\<close> between the maximal runs of white space;
  a run at either end leaves an empty piece there.
\<close>

function re_split_ws :: "string \<Rightarrow> string list" where
  "re_split_ws [] = [[]]"
| "re_split_ws (c # cs) =
     (if isspace c then [] # re_split_ws (dropWhile isspace cs)
      else (case re_split_ws cs of
              [] \<Rightarrow> [[c]]
            | t # ts \<Rightarrow> (c # t) # ts))"
  by pat_completeness auto
termination
  by (relation "measure length") (auto simp: less_Suc_eq_le length_dropWhile_le)

text \<open>The decimal digits of a natural number, and the decimal numeral of an integer.\<close>

definition digit_char :: "nat \<Rightarrow> char" where
  "digit_char d = ''0123456789'' ! d"

function str_nat :: "nat \<Rightarrow> string" where
  "str_nat n = (if n < 10 then [digit_char n] else str_nat (n div 10) @ [digit_char (n mod 10)])"
  by pat_completeness auto
termination
  by (relation "measure id") auto

declare str_nat.simps [simp del]

definition decimal_str :: "int \<Rightarrow> string" where
  "decimal_str i = (if i < 0 then CHR ''-'' # str_nat (nat (- i)) else str_nat (nat i))"

text \<open>
  \<open>str(n)\<close> and \<open>'{0}'.format(n)\<close> of an integer: its decimal numeral, or \<open>ValueError\<close>
  when it has more digits than the limit, the sign not counted.
\<close>

definition str_int :: "int \<Rightarrow> py_error + string" where
  "str_int i =
     (if length (str_nat (nat \<bar>i\<bar>)) > int_max_str_digits
      then Inl ValueError
      else Inr (decimal_str i))"

text \<open>\<open>sep.join(xs)\<close>.\<close>

fun join :: "string \<Rightarrow> string list \<Rightarrow> string" where
  "join sep [] = []"
| "join sep [x] = x"
| "join sep (x # y # ys) = x @ sep @ join sep (y # ys)"

section \<open>Text files open for reading\<close>

text \<open>
  A file opened in text mode translates \<open>\r\n\<close> and \<open>\r\<close> to \<open>\n\<close>; iterating over it
  gives its lines, each with its \<open>\n\<close>, but for a last line that has none.
\<close>

fun universal_newlines :: "string \<Rightarrow> string" where
  "universal_newlines [] = []"
| "universal_newlines (c # cs) =
     (if c = CHR 0x0D
      then (case cs of
              [] \<Rightarrow> [CHR 0x0A]
            | d # ds \<Rightarrow>
                if d = CHR 0x0A then CHR 0x0A # universal_newlines ds
                else CHR 0x0A # universal_newlines cs)
      else c # universal_newlines cs)"

fun file_lines :: "string \<Rightarrow> string list" where
  "file_lines [] = []"
| "file_lines (c # cs) =
     (if c = CHR 0x0A then [c] # file_lines cs
      else (case file_lines cs of
              [] \<Rightarrow> [[c]]
            | l # ls \<Rightarrow> (c # l) # ls))"

section \<open>GPL reader\<close>

text \<open>The comprehension \<open>[int(x) for x in parts if x.isdigit()]\<close>, on the filtered tokens.\<close>

fun int_all :: "string list \<Rightarrow> py_error + int list" where
  "int_all [] = Inr []"
| "int_all (x # xs) =
     (case py_int x of
        Inl e \<Rightarrow> Inl e
      | Inr n \<Rightarrow>
          (case int_all xs of
             Inl e \<Rightarrow> Inl e
           | Inr ns \<Rightarrow> Inr (n # ns)))"

text \<open>
  The body of the loop of \<open>parse_gpl_file\<close> (the same in main.py and GUI.py) on one
  line: \<open>Some\<close> the colour it appends, \<open>None\<close> when it continues without appending.
  An exception in the \<open>try\<close> block is caught and the line is left out.
\<close>

definition gpl_line :: "string \<Rightarrow> color option" where
  "gpl_line raw =
     (let line = strip raw
      in if line = [] \<or> startswith line ''#'' then None
         else
           (let parts = re_split_ws (strip line)
            in case int_all (filter isdigit parts) of
                 Inl e \<Rightarrow> None
               | Inr ints \<Rightarrow>
                   (let nums = take 3 ints
                    in if length nums \<ge> 3
                       then (case map (\<lambda>x. max 0 (min 255 x)) (take 3 nums) of
                               [r, g, b] \<Rightarrow> Some (r, g, b)
                             | _ \<Rightarrow> None)
                       else None)))"

text \<open>\<open>parse_gpl_file\<close>, on the decoded content of the file it opens.\<close>

definition parse_gpl_file :: "string \<Rightarrow> color list" where
  "parse_gpl_file text =
     foldl (\<lambda>colors line. case gpl_line line of None \<Rightarrow> colors | Some c \<Rightarrow> colors @ [c])
       [] (file_lines (universal_newlines text))"

section \<open>GPL writer\<close>

text \<open>
  \<open>'{0} {1} {2}\tUntitled'.format(*color)\<close>: the three channels are converted in
  turn, and the first conversion that fails raises.
\<close>

definition color_line :: "color \<Rightarrow> py_error + string" where
  "color_line color =
     (case color of
        (c0, c1, c2) \<Rightarrow>
          (case str_int c0 of
             Inl e \<Rightarrow> Inl e
           | Inr s0 \<Rightarrow>
               (case str_int c1 of
                  Inl e \<Rightarrow> Inl e
                | Inr s1 \<Rightarrow>
                    (case str_int c2 of
                       Inl e \<Rightarrow> Inl e
                     | Inr s2 \<Rightarrow>
                         Inr (s0 @ '' '' @ s1 @ '' '' @ s2 @ [CHR 0x09] @ ''Untitled'')))))"

text \<open>The generator \<open>(... for color in colors)\<close> that \<open>join\<close> consumes.\<close>

fun color_lines :: "color list \<Rightarrow> py_error + string list" where
  "color_lines [] = Inr []"
| "color_lines (c # cs) =
     (case color_line c of
        Inl e \<Rightarrow> Inl e
      | Inr l \<Rightarrow>
          (case color_lines cs of
             Inl e \<Rightarrow> Inl e
           | Inr ls \<Rightarrow> Inr (l # ls)))"

text \<open>
  \<open>return_gimp_palette\<close> of GUI.py, with a string for the name and an integer for the
  columns: the text it returns, or the exception it raises. The argument \<open>colors\<close> of
  \<open>format\<close> is evaluated before the format string is filled in.
\<close>

definition return_gimp_palette :: "color list \<Rightarrow> string \<Rightarrow> int \<Rightarrow> py_error + string" where
  "return_gimp_palette colors name columns =
     (case color_lines colors of
        Inl e \<Rightarrow> Inl e
      | Inr ls \<Rightarrow>
          (case str_int columns of
             Inl e \<Rightarrow> Inl e
           | Inr cols \<Rightarrow>
               Inr (''GIMP Palette\<newline>Name: '' @ name @ ''\<newline>Columns: '' @ cols @ ''\<newline>#\<newline>''
                    @ join ''\<newline>'' ls @ ''\<newline>'')))"

section \<open>The properties, in the specification's words\<close>

text \<open>A colour whose three channels are within 0..255.\<close>

definition in_range :: "color \<Rightarrow> bool" where
  "in_range c =
     (case c of (r, g, b) \<Rightarrow> 0 \<le> r \<and> r \<le> 255 \<and> 0 \<le> g \<and> g \<le> 255 \<and> 0 \<le> b \<and> b \<le> 255)"

text \<open>The three raw bytes of a colour in an ACT file, in the order R, G, B.\<close>

definition rgb_bytes :: "color \<Rightarrow> byte list" where
  "rgb_bytes c = (case c of (r, g, b) \<Rightarrow> [word_of_int r, word_of_int g, word_of_int b])"

text \<open>The \<open>i\<close>-th group of three consecutive bytes of a file, from offset 0, as a colour.\<close>

definition group_at :: "byte list \<Rightarrow> nat \<Rightarrow> color" where
  "group_at bs i = (uint (bs ! (3 * i)), uint (bs ! (3 * i + 1)), uint (bs ! (3 * i + 2)))"

text \<open>
  The colour count of an ACT file as the specification determines it: the big-endian
  16-bit integer at offset 768 when the size is exactly 772, the size divided by 3
  otherwise.
\<close>

definition spec_color_count :: "byte list \<Rightarrow> nat" where
  "spec_color_count bs =
     (if length bs = 772 then 256 * unat (bs ! 768) + unat (bs ! 769) else length bs div 3)"

text \<open>
  An unsigned decimal integer as a token of a GPL line: digits only, no sign, and
  within the limit on the digits of a conversion.
\<close>

definition decimal_token :: "string \<Rightarrow> bool" where
  "decimal_token t = (t \<noteq> [] \<and> list_all isdecimal_char t \<and> length t \<le> int_max_str_digits)"

text \<open>An integer whose decimal numeral is within the limit on the digits of a conversion.\<close>

definition within_digit_limit :: "int \<Rightarrow> bool" where
  "within_digit_limit i = (\<bar>i\<bar> < 10 ^ int_max_str_digits)"

text \<open>A colour whose three channels are within that limit.\<close>

definition channels_within_limit :: "color \<Rightarrow> bool" where
  "channels_within_limit c =
     (case c of (r, g, b) \<Rightarrow> within_digit_limit r \<and> within_digit_limit g \<and> within_digit_limit b)"

text \<open>The line of a colour in GPL text: the channels in decimal, a tab, the label.\<close>

definition spec_color_text :: "color \<Rightarrow> string" where
  "spec_color_text c =
     (case c of (r, g, b) \<Rightarrow>
        decimal_str r @ '' '' @ decimal_str g @ '' '' @ decimal_str b @ [CHR 0x09] @ ''Untitled'')"

text \<open>A value clamped into 0..255.\<close>

definition clamp_channel :: "int \<Rightarrow> int" where
  "clamp_channel x = (if x < 0 then 0 else if 255 < x then 255 else x)"

text \<open>
  The colour of one line of a GPL file as the specification reads it. A blank line and a
  line beginning with \<open>#\<close> give none. Otherwise the line is split on runs of white
  space and its digit-only tokens are collected: a line on which one of them does not
  convert, and a line with fewer than three of them, give none; else the first three,
  left to right, each clamped into 0..255, are the colour.
\<close>

definition spec_line_color :: "string \<Rightarrow> color option" where
  "spec_line_color l =
     (let s = strip l;
          tokens = filter isdigit (re_split_ws s)
      in if s = [] \<or> hd s = CHR ''#'' then None
         else if list_all decimal_token tokens
         then (case tokens of
                 r # g # b # _ \<Rightarrow>
                   Some (clamp_channel (decimal_value r), clamp_channel (decimal_value g),
                         clamp_channel (decimal_value b))
               | _ \<Rightarrow> None)
         else None)"

section \<open>ACT: lemmas\<close>




lemma write_colors_in_range:
  "list_all in_range cs \<Longrightarrow> write_colors cs = Inr (concat (map rgb_bytes cs))"
  by (induction cs) (auto simp: in_range_def rgb_bytes_def pack_3B_def)

lemma write_padding_eq: "write_padding k = Inr (concat (replicate k [0, 0, 0]))"
  by (induction k) (auto simp: pack_3B_def)

lemma length_concat_rgb: "length (concat (map rgb_bytes cs)) = 3 * length cs"
  by (induction cs) (auto simp: rgb_bytes_def)

lemma length_concat_pad: "length (concat (replicate k [a, b, c])) = 3 * k"
  by (induction k) auto

lemma create_act_file_in_range:
  assumes "list_all in_range colors"
  shows "create_act_file colors =
     Inr (concat (map rgb_bytes (take 256 colors))
          @ concat (replicate (256 - length colors) [0, 0, 0])
          @ (if 1 \<le> length colors \<and> length colors \<le> 255
             then [0, word_of_nat (length colors)] else []))"
proof -
  have "list_all in_range (take 256 colors)"
    using assms by (auto simp: list_all_iff dest: in_set_takeD)
  then have w: "write_colors (take 256 colors) = Inr (concat (map rgb_bytes (take 256 colors)))"
    by (rule write_colors_in_range)
  have n: "nat (256 - int (length colors)) = 256 - length colors" by simp
  show ?thesis
    unfolding create_act_file_def w n write_padding_eq
    by (cases colors) (auto simp: pack_H_def)
qed

lemma take3_drop:
  "p + 3 \<le> length xs \<Longrightarrow> take 3 (drop p xs) = [xs ! p, xs ! (p + 1), xs ! (p + 2)]"
proof -
  assume a: "p + 3 \<le> length xs"
  have "drop p xs = xs ! p # drop (Suc p) xs"
    using a by (simp add: Cons_nth_drop_Suc)
  also have "drop (Suc p) xs = xs ! (p + 1) # drop (Suc (Suc p)) xs"
    using a by (simp add: Cons_nth_drop_Suc)
  also have "drop (Suc (Suc p)) xs = xs ! (p + 2) # drop (Suc (Suc (Suc p))) xs"
    using a by (simp add: Cons_nth_drop_Suc)
  finally show ?thesis by simp
qed

lemma unpack_3B_short: "length buf \<noteq> 3 \<Longrightarrow> unpack_3B buf = Inl StructError"
  by (auto simp: unpack_3B_def split: list.splits)


lemma read_colors_fits:
  "pos f + 3 * n \<le> length (data f) \<Longrightarrow>
   read_colors n f =
     Inr (map (\<lambda>i. (uint (data f ! (pos f + 3 * i)), uint (data f ! (pos f + 3 * i + 1)),
                     uint (data f ! (pos f + 3 * i + 2)))) [0..<n])"
proof (induction n arbitrary: f)
  case 0
  then show ?case by simp
next
  case (Suc n)
  have p: "pos f + 3 \<le> length (data f)" using Suc.prems by simp
  let ?f' = "f\<lparr>pos := pos f + 3\<rparr>"
  have r: "fread 3 f = ([data f ! pos f, data f ! (pos f + 1), data f ! (pos f + 2)], ?f')"
    using p by (simp add: fread_def take3_drop Let_def)
  have "pos ?f' + 3 * n \<le> length (data ?f')" using Suc.prems by simp
  from Suc.IH [OF this] show ?case
    by (simp add: r unpack_3B_def map_upt_Suc add.assoc del: upt_Suc)
qed

lemma read_colors_short:
  "pos f \<le> length (data f) \<Longrightarrow> length (data f) < pos f + 3 * n \<Longrightarrow>
   read_colors n f = Inl StructError"
proof (induction n arbitrary: f)
  case 0
  then show ?case by simp
next
  case (Suc n)
  show ?case
  proof (cases "pos f + 3 \<le> length (data f)")
    case True
    let ?f' = "f\<lparr>pos := pos f + 3\<rparr>"
    have r: "fread 3 f = ([data f ! pos f, data f ! (pos f + 1), data f ! (pos f + 2)], ?f')"
      using True by (simp add: fread_def take3_drop Let_def)
    have "read_colors n ?f' = Inl StructError"
      using True Suc.prems by (intro Suc.IH) auto
    then show ?thesis by (simp add: r unpack_3B_def)
  next
    case False
    then have "length (take 3 (drop (pos f) (data f))) < 3" by simp
    then have "unpack_3B (take 3 (drop (pos f) (data f))) = Inl StructError"
      by (intro unpack_3B_short) simp
    then show ?thesis by (simp add: fread_def Let_def)
  qed
qed



lemma take2_drop:
  "p + 2 \<le> length xs \<Longrightarrow> take 2 (drop p xs) = [xs ! p, xs ! (p + 1)]"
proof -
  assume a: "p + 2 \<le> length xs"
  have "drop p xs = xs ! p # drop (Suc p) xs"
    using a by (simp add: Cons_nth_drop_Suc)
  also have "drop (Suc p) xs = xs ! (p + 1) # drop (Suc (Suc p)) xs"
    using a by (simp add: Cons_nth_drop_Suc)
  finally show ?thesis by simp
qed

lemma parse_adobe_act_count:
  "parse_adobe_act bs = read_colors (spec_color_count bs) (fopen bs)"
proof (cases "length bs = 772")
  case True
  have "fread 2 (fseek 768 (fopen bs)) = ([bs ! 768, bs ! 769], \<lparr>data = bs, pos = 770\<rparr>)"
    using True take2_drop [of 768 bs] by (simp add: fread_def fseek_def fopen_def Let_def)
  moreover have "nat (256 * uint (bs ! 768) + uint (bs ! 769)) = 256 * unat (bs ! 768) + unat (bs ! 769)"
    by (simp add: nat_add_distrib nat_mult_distrib)
  ultimately show ?thesis
    using True by (simp add: parse_adobe_act_def spec_color_count_def unpack_H_def fseek_def fopen_def)
next
  case False
  then show ?thesis by (simp add: parse_adobe_act_def spec_color_count_def)
qed

lemma parse_adobe_act_fits_aux:
  assumes "3 * spec_color_count bs \<le> length bs"
  shows "parse_adobe_act bs = Inr (map (group_at bs) [0..<spec_color_count bs])"
proof -
  have "pos (fopen bs) + 3 * spec_color_count bs \<le> length (data (fopen bs))"
    using assms by (simp add: fopen_def)
  from read_colors_fits [OF this] show ?thesis
    by (simp add: parse_adobe_act_count fopen_def group_at_def)
qed

lemma parse_adobe_act_short_aux:
  assumes "length bs < 3 * spec_color_count bs"
  shows "parse_adobe_act bs = Inl StructError"
  unfolding parse_adobe_act_count
  by (rule read_colors_short) (use assms in \<open>simp_all add: fopen_def\<close>)

lemma unpack_3B_rgb_bytes: "in_range c \<Longrightarrow> unpack_3B (rgb_bytes c) = Inr c"
  by (auto simp: in_range_def rgb_bytes_def unpack_3B_def uint_word_of_int)

lemma length_rgb_bytes: "length (rgb_bytes c) = 3"
  by (simp add: rgb_bytes_def split: prod.splits)

lemma read_colors_concat:
  "data f = pre @ concat (map rgb_bytes cs) @ post \<Longrightarrow> pos f = length pre \<Longrightarrow>
   list_all in_range cs \<Longrightarrow> read_colors (length cs) f = Inr cs"
proof (induction cs arbitrary: f pre)
  case Nil
  then show ?case by simp
next
  case (Cons c cs)
  let ?f' = "f\<lparr>pos := pos f + 3\<rparr>"
  have r: "fread 3 f = (rgb_bytes c, ?f')"
    using Cons.prems(1,2) by (simp add: fread_def Let_def length_rgb_bytes)
  have "read_colors (length cs) ?f' = Inr cs"
    using Cons.prems by (intro Cons.IH [where pre = "pre @ rgb_bytes c"]) (simp_all add: length_rgb_bytes)
  then show ?case
    using Cons.prems(3) by (simp add: r unpack_3B_rgb_bytes)
qed

lemma concat_replicate_black:
  "concat (replicate k [0, 0, 0 :: byte]) = concat (map rgb_bytes (replicate k (0, 0, 0)))"
  by (induction k) (simp_all add: rgb_bytes_def)

lemma act_round_trip_padded:
  assumes "list_all in_range colors" and "1 \<le> length colors" and "length colors \<le> 255"
  shows "\<exists>bs. create_act_file colors = Inr bs \<and> length bs = 770 \<and>
           parse_adobe_act bs = Inr (colors @ replicate (256 - length colors) (0, 0, 0))"
proof -
  let ?k = "256 - length colors"
  let ?all = "colors @ replicate ?k (0, 0, 0)"
  let ?bs = "concat (map rgb_bytes ?all) @ [0, word_of_nat (length colors)]"
  have c: "create_act_file colors = Inr ?bs"
    using assms by (simp add: create_act_file_in_range concat_replicate_black)
  have "length (concat (map rgb_bytes ?all)) = 3 * length ?all"
    by (rule length_concat_rgb)
  then have len: "length ?bs = 770"
    using assms by simp
  have n: "spec_color_count ?bs = length ?all"
    using assms len by (simp add: spec_color_count_def)
  have "list_all in_range ?all"
    using assms by (simp add: list_all_iff in_range_def)
  then have "read_colors (length ?all) (fopen ?bs) = Inr ?all"
    by (intro read_colors_concat [where pre = "[]" and post = "[0, word_of_nat (length colors)]"])
       (simp_all add: fopen_def)
  then have "parse_adobe_act ?bs = Inr ?all"
    by (simp only: parse_adobe_act_count n)
  with c len show ?thesis by blast
qed


lemma concat_replicate_same: "concat (replicate k [a, a, a]) = replicate (3 * k) a"
proof (induction k)
  case 0
  show ?case by simp
next
  case (Suc k)
  have "replicate (3 + n) a = a # a # a # replicate n a" for n
    by (simp add: numeral_3_eq_3)
  with Suc show ?case by simp
qed

section \<open>ACT: the claims\<close>

text \<open>
  Claim C1 (round trip through an ACT file). The claim is that for a palette of 1 to 255
  colours with channels in 0..255, reading back the file written by the ACT writer
  gives the palette itself, the count being recovered from the trailing count field.
  The code does otherwise: the writer ends the file with the 2-byte count alone, 770
  bytes in all, and the reader takes the count from the file only at a size of
  exactly 772 bytes. At the one-colour palette \<open>[(1, 2, 3)]\<close> the writer gives 770 bytes and
  the reader returns 256 colours from them: the colour, then the 255 padding entries.
  (Lemma \<open>act_round_trip_padded\<close> shows the same for every palette of the claim.)
\<close>

theorem act_round_trip_returns_padding:
  "create_act_file [(1, 2, 3)] = Inr ([1, 2, 3] @ replicate 765 0 @ [0, 1]) \<and>
   parse_adobe_act ([1, 2, 3] @ replicate 765 0 @ [0, 1]) = Inr ((1, 2, 3) # replicate 255 (0, 0, 0))"
proof -
  have r: "list_all in_range [(1, 2, 3)]" by (simp add: in_range_def)
  have c: "create_act_file [(1, 2, 3)] = Inr ([1, 2, 3] @ replicate 765 0 @ [0, 1])"
    by (simp add: create_act_file_in_range [OF r] concat_replicate_same rgb_bytes_def)
  from act_round_trip_padded [OF r] c show ?thesis by simp
qed

text \<open>
  Claim C3 (layout of the written ACT file). For every list of colours with channels in
  0..255, the writer returns, and the bytes written are: the 3-byte triples of the first
  \<open>min (length colors) 256\<close> colours in order, then \<open>(0, 0, 0)\<close> triples up to 256
  slots, then the big-endian 16-bit count of the colours given exactly when there are
  1 to 255 of them. The size is 770 bytes in that case and 768 bytes otherwise.
\<close>

theorem create_act_file_layout:
  assumes "list_all in_range colors"
  shows "\<exists>bs. create_act_file colors = Inr bs \<and>
           bs = concat (map rgb_bytes (take (min (length colors) 256) colors))
                @ concat (replicate (256 - min (length colors) 256) [0, 0, 0])
                @ (if 1 \<le> length colors \<and> length colors \<le> 255
                   then [word_of_nat (length colors div 256), word_of_nat (length colors mod 256)]
                   else []) \<and>
           length bs = (if 1 \<le> length colors \<and> length colors \<le> 255 then 770 else 768)"
proof -
  have t: "take (min (length colors) 256) colors = take 256 colors"
    by (simp add: min_def)
  have l: "length (concat (map rgb_bytes (take 256 colors))) = 3 * min (length colors) 256"
    by (simp add: length_concat_rgb)
  show ?thesis
    unfolding create_act_file_in_range [OF assms] t
    by (auto simp: l length_concat_pad)
qed

text \<open>
  The theorem at a palette of 300 colours: 768 bytes, the first 256 colours and no
  count field.
\<close>

theorem create_act_file_layout_witness:
  "list_all in_range (replicate 300 (1, 2, 3)) \<and>
   create_act_file (replicate 300 (1, 2, 3)) = Inr (concat (replicate 256 [1, 2, 3])) \<and>
   length (concat (replicate 256 [1, 2, 3 :: byte])) = 768"
proof -
  have r: "list_all in_range (replicate 300 (1, 2, 3))"
    by (simp add: list_all_iff in_range_def)
  from create_act_file_layout [OF r] show ?thesis
    using r by (simp add: rgb_bytes_def length_concat_pad)
qed

text \<open>
  Claim C2 (colour count and result of the ACT reader). As stated, for every input, the
  claim fails: on a file of 772 bytes whose count field holds 300, the reader raises
  \<open>struct.error\<close> and returns no colours.
\<close>

theorem parse_adobe_act_every_input_counterexample:
  "parse_adobe_act (replicate 768 0 @ [1, 44, 0, 0]) = Inl StructError"
  by (rule parse_adobe_act_short_aux) (simp add: spec_color_count_def nth_append)

text \<open>
  Claim C2, amended: the count is the big-endian 16-bit integer at offset 768 when the
  size is exactly 772 bytes and the size divided by 3 otherwise; for every input that
  holds at least 3 bytes for each colour of that count, the reader returns exactly that
  many colours, the consecutive 3-byte groups from offset 0, in order.
\<close>

theorem parse_adobe_act_fits:
  assumes "3 * spec_color_count bs \<le> length bs"
  shows "parse_adobe_act bs = Inr (map (group_at bs) [0..<spec_color_count bs])"
  using assms by (rule parse_adobe_act_fits_aux)

text \<open>
  The theorem at a file of 772 bytes whose count field holds 2: two colours are
  returned, not the 257 that the size would give.
\<close>

theorem parse_adobe_act_fits_witness:
  "3 * spec_color_count ([1, 2, 3, 4, 5, 6] @ replicate 762 0 @ [0, 2, 0, 0])
     \<le> length ([1, 2, 3, 4, 5, 6] @ replicate 762 (0 :: byte) @ [0, 2, 0, 0]) \<and>
   parse_adobe_act ([1, 2, 3, 4, 5, 6] @ replicate 762 0 @ [0, 2, 0, 0]) = Inr [(1, 2, 3), (4, 5, 6)]"
proof -
  let ?bs = "[1, 2, 3, 4, 5, 6] @ replicate 762 0 @ [0, 2, 0, 0 :: byte]"
  have n: "spec_color_count ?bs = 2"
    by (simp add: spec_color_count_def nth_append)
  have h: "3 * spec_color_count ?bs \<le> length ?bs"
    unfolding n by simp
  have m: "map (group_at ?bs) [0..<2] = [(1, 2, 3), (4, 5, 6)]"
    by (simp add: group_at_def upt_rec)
  have "parse_adobe_act ?bs = Inr (map (group_at ?bs) [0..<2])"
    using parse_adobe_act_fits [OF h] unfolding n .
  then have "parse_adobe_act ?bs = Inr [(1, 2, 3), (4, 5, 6)]"
    by (simp only: m)
  with h show ?thesis by blast
qed

text \<open>
  Claim C5 (short read). For every input whose determined count needs more bytes than
  the file holds, the reader raises \<open>struct.error\<close>; it does not return a shorter list.
\<close>

theorem parse_adobe_act_short_read:
  assumes "length bs < 3 * spec_color_count bs"
  shows "parse_adobe_act bs = Inl StructError"
  using assms by (rule parse_adobe_act_short_aux)

text \<open>The theorem at a file of 772 bytes whose count field holds 258.\<close>

theorem parse_adobe_act_short_read_witness:
  "length (replicate 768 0 @ [1, 2, 0, 0 :: byte])
     < 3 * spec_color_count (replicate 768 0 @ [1, 2, 0, 0]) \<and>
   spec_color_count (replicate 768 0 @ [1, 2, 0, 0]) = 258 \<and>
   parse_adobe_act (replicate 768 0 @ [1, 2, 0, 0]) = Inl StructError"
proof -
  have n: "spec_color_count (replicate 768 0 @ [1, 2, 0, 0]) = 258"
    by (simp add: spec_color_count_def nth_append)
  have h: "length (replicate 768 0 @ [1, 2, 0, 0 :: byte])
     < 3 * spec_color_count (replicate 768 0 @ [1, 2, 0, 0])"
    unfolding n by simp
  from parse_adobe_act_short_read [OF h] h n show ?thesis by simp
qed

section \<open>GPL: lemmas\<close>

subsection \<open>Lines of a text\<close>

lemma foldl_collect:
  "foldl (\<lambda>colors line. case g line of None \<Rightarrow> colors | Some c \<Rightarrow> colors @ [c]) acc ls
     = acc @ List.map_filter g ls"
  by (induction ls arbitrary: acc) (auto split: option.splits)

lemma parse_gpl_file_map_filter:
  "parse_gpl_file text = List.map_filter gpl_line (file_lines (universal_newlines text))"
  by (simp add: parse_gpl_file_def foldl_collect)

lemma map_filter_append: "List.map_filter g (xs @ ys) = List.map_filter g xs @ List.map_filter g ys"
  by (induction xs) (auto split: option.splits)

lemma universal_newlines_append_nl:
  "universal_newlines (a @ CHR 0x0A # b) = universal_newlines (a @ [CHR 0x0A]) @ universal_newlines b"
proof (induction a rule: universal_newlines.induct)
  case 1
  show ?case by simp
next
  case (2 c cs)
  show ?case
  proof (cases "c = CHR 0x0D")
    case False
    with 2 show ?thesis by simp
  next
    case True
    show ?thesis
    proof (cases cs)
      case Nil
      with True show ?thesis by simp
    next
      case (Cons d ds)
      show ?thesis
      proof (cases "d = CHR 0x0A")
        case T: True
        from "2.IH"(1) [OF True Cons T] True Cons T show ?thesis by simp
      next
        case F: False
        from "2.IH"(2) [OF True Cons F] True Cons F show ?thesis by simp
      qed
    qed
  qed
qed

lemma universal_newlines_last_nl:
  "universal_newlines (a @ [CHR 0x0A]) \<noteq> [] \<and> last (universal_newlines (a @ [CHR 0x0A])) = CHR 0x0A"
proof (induction a rule: universal_newlines.induct)
  case 1
  show ?case by simp
next
  case (2 c cs)
  show ?case
  proof (cases "c = CHR 0x0D")
    case False
    from "2.IH"(3) [OF False] False show ?thesis by simp
  next
    case True
    show ?thesis
    proof (cases cs)
      case Nil
      with True show ?thesis by simp
    next
      case (Cons d ds)
      show ?thesis
      proof (cases "d = CHR 0x0A")
        case T: True
        from "2.IH"(1) [OF True Cons T] True Cons T show ?thesis by simp
      next
        case F: False
        from "2.IH"(2) [OF True Cons F] True Cons F show ?thesis by simp
      qed
    qed
  qed
qed

lemma universal_newlines_ends_nl:
  "\<exists>u. universal_newlines (a @ [CHR 0x0A]) = u @ [CHR 0x0A]"
proof -
  let ?t = "universal_newlines (a @ [CHR 0x0A])"
  from universal_newlines_last_nl [of a]
  have ne: "?t \<noteq> []" and l: "last ?t = CHR 0x0A" by blast+
  have "butlast ?t @ [last ?t] = ?t"
    using ne by (rule append_butlast_last_id)
  then have "?t = butlast ?t @ [CHR 0x0A]"
    by (simp only: l)
  then show ?thesis ..
qed

lemma file_lines_Nil_iff: "file_lines s = [] \<longleftrightarrow> s = []"
  by (cases s) (auto split: list.splits)

lemma file_lines_append_nl:
  "file_lines (u @ CHR 0x0A # v) = file_lines (u @ [CHR 0x0A]) @ file_lines v"
  by (induction u) (auto simp: file_lines_Nil_iff split: list.splits)

lemma parse_gpl_file_append_nl:
  "parse_gpl_file (a @ CHR 0x0A # b) = parse_gpl_file (a @ [CHR 0x0A]) @ parse_gpl_file b"
proof -
  obtain u where u: "universal_newlines (a @ [CHR 0x0A]) = u @ [CHR 0x0A]"
    using universal_newlines_ends_nl by blast
  have "universal_newlines (a @ CHR 0x0A # b) = u @ CHR 0x0A # universal_newlines b"
    using universal_newlines_append_nl [of a b] by (simp only: u append_Cons append_Nil append_assoc)
  then have "file_lines (universal_newlines (a @ CHR 0x0A # b))
          = file_lines (u @ [CHR 0x0A]) @ file_lines (universal_newlines b)"
    using file_lines_append_nl [of u "universal_newlines b"] by (simp only:)
  then show ?thesis
    by (simp only: parse_gpl_file_map_filter map_filter_append u)
qed

lemma universal_newlines_id: "CHR 0x0D \<notin> set s \<Longrightarrow> universal_newlines s = s"
  by (induction s) auto

lemma file_lines_terminated: "CHR 0x0A \<notin> set s \<Longrightarrow> file_lines (s @ [CHR 0x0A]) = [s @ [CHR 0x0A]]"
  by (induction s) auto

lemma file_lines_unterminated: "CHR 0x0A \<notin> set s \<Longrightarrow> s \<noteq> [] \<Longrightarrow> file_lines s = [s]"
proof (induction s)
  case Nil
  then show ?case by simp
next
  case (Cons c s)
  show ?case
  proof (cases "s = []")
    case True
    with Cons.prems show ?thesis by simp
  next
    case False
    with Cons have "file_lines s = [s]" by simp
    with Cons.prems show ?thesis by auto
  qed
qed

subsection \<open>strip and split\<close>

lemma strip_snoc_space:
  assumes "isspace c"
  shows "strip (s @ [c]) = strip s"
proof (cases "\<forall>x\<in>set s. isspace x")
  case True
  then have d1: "dropWhile isspace s = []" by simp
  have d2: "dropWhile isspace (s @ [c]) = []" using True assms by simp
  show ?thesis by (simp only: strip_def d1 d2)
next
  case False
  then have "dropWhile isspace (s @ [c]) = dropWhile isspace s @ [c]"
    by (simp add: dropWhile_append)
  then show ?thesis using assms by (simp add: strip_def)
qed

lemma dropWhile_hd: "xs \<noteq> [] \<Longrightarrow> \<not> P (hd xs) \<Longrightarrow> dropWhile P xs = xs"
  by (cases xs) auto

lemma strip_id: "s \<noteq> [] \<Longrightarrow> \<not> isspace (hd s) \<Longrightarrow> \<not> isspace (last s) \<Longrightarrow> strip s = s"
  by (simp add: strip_def dropWhile_hd hd_rev)

lemma gpl_line_cong: "strip a = strip b \<Longrightarrow> gpl_line a = gpl_line b"
  by (simp add: gpl_line_def)

lemma gpl_line_snoc_space: "isspace c \<Longrightarrow> gpl_line (s @ [c]) = gpl_line s"
  by (rule gpl_line_cong) (rule strip_snoc_space)

lemma re_split_ws_token: "\<forall>c\<in>set t. \<not> isspace c \<Longrightarrow> re_split_ws t = [t]"
  by (induction t) auto

lemma re_split_ws_token_sep:
  "\<forall>x\<in>set t. \<not> isspace x \<Longrightarrow> isspace c \<Longrightarrow>
   re_split_ws (t @ c # rest) = t # re_split_ws (dropWhile isspace rest)"
  by (induction t) auto

lemma int_all_length: "int_all xs = Inr ns \<Longrightarrow> length ns = length xs"
  by (induction xs arbitrary: ns) (auto split: sum.splits)

lemma last_dropWhile: "dropWhile P xs \<noteq> [] \<Longrightarrow> last (dropWhile P xs) = last xs"
  by (induction xs) (auto split: if_splits)

lemma strip_ends:
  assumes "strip s \<noteq> []"
  shows "\<not> isspace (hd (strip s))" and "\<not> isspace (last (strip s))"
proof -
  let ?d = "dropWhile isspace s"
  let ?e = "dropWhile isspace (rev ?d)"
  have e: "?e \<noteq> []" using assms by (simp add: strip_def)
  have d: "?d \<noteq> []"
  proof
    assume a: "?d = []"
    have "?e = dropWhile isspace (rev [])" by (simp only: a)
    then have "?e = []" by simp
    with e show False by contradiction
  qed
  have "hd (strip s) = last ?e" by (simp add: strip_def hd_rev)
  also have "\<dots> = last (rev ?d)" using e by (rule last_dropWhile)
  also have "\<dots> = hd ?d" by (simp add: last_rev)
  finally show "\<not> isspace (hd (strip s))" using hd_dropWhile [OF d] by simp
  have "last (strip s) = hd ?e" by (simp add: strip_def last_rev)
  then show "\<not> isspace (last (strip s))" using hd_dropWhile [OF e] by simp
qed

lemma strip_strip: "strip (strip s) = strip s"
proof (cases "strip s = []")
  case True
  have "strip [] = []" by (simp add: strip_def)
  with True show ?thesis by simp
next
  case False
  then show ?thesis by (intro strip_id strip_ends)
qed

lemma gpl_line_few_tokens:
  assumes "length (filter isdigit (re_split_ws (strip l))) < 3"
  shows "gpl_line l = None"
proof (cases "int_all (filter isdigit (re_split_ws (strip l)))")
  case (Inl e)
  then show ?thesis by (simp add: gpl_line_def strip_strip Let_def)
next
  case (Inr ns)
  with assms have "length ns < 3" by (simp add: int_all_length)
  with Inr show ?thesis by (simp add: gpl_line_def strip_strip Let_def)
qed


lemma gpl_line_SomeD:
  assumes "gpl_line l = Some c"
  shows "\<exists>x y z. c = (max 0 (min 255 x), max 0 (min 255 y), max 0 (min 255 z))"
proof (cases "int_all (filter isdigit (re_split_ws (strip (strip l))))")
  case (Inl e)
  with assms show ?thesis by (simp add: gpl_line_def Let_def split: if_splits)
next
  case (Inr ns)
  let ?m = "map (\<lambda>x. max 0 (min 255 x)) (take 3 (take 3 ns))"
  from assms Inr have "(case ?m of [r, g, b] \<Rightarrow> Some (r, g, b) | _ \<Rightarrow> None) = Some c"
    by (simp add: gpl_line_def Let_def split: if_splits)
  then obtain r g b where m: "?m = [r, g, b]" and c: "c = (r, g, b)"
    by (auto split: list.splits)
  from m obtain x y z where "take 3 (take 3 ns) = [x, y, z]"
    by (auto simp: map_eq_Cons_conv)
  with m c show ?thesis by auto
qed

lemma gpl_line_in_range: "gpl_line l = Some c \<Longrightarrow> in_range c"
  by (drule gpl_line_SomeD) (auto simp: in_range_def)

subsection \<open>Decimal strings\<close>

lemma digit_cases:
  "d < 10 \<Longrightarrow> d = 0 \<or> d = 1 \<or> d = 2 \<or> d = 3 \<or> d = 4 \<or> d = 5 \<or> d = 6 \<or> d = 7 \<or> d = 8 \<or> d = (9::nat)"
  by arith

lemma digit_char_decimal: "d < 10 \<Longrightarrow> isdecimal_char (digit_char d)"
  by (drule digit_cases) (auto simp: digit_char_def isdecimal_char_def)

lemma digit_value_digit_char: "d < 10 \<Longrightarrow> digit_value (digit_char d) = int d"
  by (drule digit_cases) (auto simp: digit_char_def digit_value_def)

lemma digit_value_nonneg: "isdecimal_char c \<Longrightarrow> 0 \<le> digit_value c"
  by (auto simp: isdecimal_char_def digit_value_def)

lemma str_nat_decimal: "list_all isdecimal_char (str_nat n)"
proof (induction n rule: str_nat.induct)
  case (1 n)
  show ?case
  proof (cases "n < 10")
    case True
    then show ?thesis by (subst str_nat.simps) (simp add: digit_char_decimal)
  next
    case False
    with 1 show ?thesis by (subst str_nat.simps) (simp add: digit_char_decimal)
  qed
qed

lemma str_nat_nonempty: "str_nat n \<noteq> []"
  by (subst str_nat.simps) simp

lemma decimal_value_snoc: "decimal_value (s @ [c]) = 10 * decimal_value s + digit_value c"
  by (simp add: decimal_value_def)

lemma decimal_value_str_nat: "decimal_value (str_nat n) = int n"
proof (induction n rule: str_nat.induct)
  case (1 n)
  show ?case
  proof (cases "n < 10")
    case True
    then show ?thesis
      by (subst str_nat.simps) (simp add: decimal_value_def digit_value_digit_char)
  next
    case False
    have "int n = 10 * int (n div 10) + int (n mod 10)"
      by (simp add: zdiv_int zmod_int)
    with False 1 show ?thesis
      by (subst str_nat.simps) (simp add: decimal_value_snoc digit_value_digit_char)
  qed
qed

lemma decimal_value_nonneg: "list_all isdecimal_char s \<Longrightarrow> 0 \<le> decimal_value s"
proof (induction s rule: rev_induct)
  case Nil
  show ?case by (simp add: decimal_value_def)
next
  case (snoc c s)
  then have "0 \<le> decimal_value s" and "0 \<le> digit_value c"
    by (simp_all add: digit_value_nonneg)
  then show ?case by (simp add: decimal_value_snoc)
qed

lemma length_str_nat_le: "0 < k \<Longrightarrow> n < 10 ^ k \<Longrightarrow> length (str_nat n) \<le> k"
proof (induction n arbitrary: k rule: str_nat.induct)
  case (1 n)
  show ?case
  proof (cases "n < 10")
    case True
    with "1.prems" show ?thesis by (subst str_nat.simps) simp
  next
    case False
    from False "1.prems" have k: "1 < k"
      by (cases "k = 1") auto
    then obtain j where j: "k = Suc j" and j0: "0 < j"
      by (cases k) auto
    from "1.prems"(2) j have "n div 10 < 10 ^ j"
      by (simp add: less_mult_imp_div_less mult.commute)
    with "1.IH" [OF False j0] have "length (str_nat (n div 10)) \<le> j" by simp
    with False j show ?thesis by (subst str_nat.simps) simp
  qed
qed

lemma length_str_nat_gt: "10 ^ k \<le> n \<Longrightarrow> k < length (str_nat n)"
proof (induction k arbitrary: n)
  case 0
  then show ?case using str_nat_nonempty [of n] by (cases "str_nat n") auto
next
  case (Suc k)
  have "(10::nat) \<le> 10 * 10 ^ k" by simp
  also have "\<dots> \<le> n" using Suc.prems by simp
  finally have n: "\<not> n < 10" by simp
  from Suc.prems have "10 ^ k \<le> n div 10"
    by (simp add: less_eq_div_iff_mult_less_eq mult.commute)
  then have "k < length (str_nat (n div 10))" by (rule Suc.IH)
  with n show ?case by (subst str_nat.simps) simp
qed

subsection \<open>Tokens\<close>

lemma isdecimal_not_space: "isdecimal_char c \<Longrightarrow> \<not> isspace c"
  by (auto simp: isdecimal_char_def isspace_def whitespace_def)

lemma isdecimal_not_special:
  "isdecimal_char c \<Longrightarrow> c \<noteq> CHR ''#'' \<and> c \<noteq> CHR 0x0A \<and> c \<noteq> CHR 0x0D"
  by (auto simp: isdecimal_char_def)

lemma decimal_token_nonempty: "decimal_token t \<Longrightarrow> t \<noteq> []"
  by (simp add: decimal_token_def)

lemma decimal_token_set: "decimal_token t \<Longrightarrow> x \<in> set t \<Longrightarrow> isdecimal_char x"
  by (simp add: decimal_token_def list_all_iff)

lemma decimal_token_hd: "decimal_token t \<Longrightarrow> isdecimal_char (hd t)"
  by (rule decimal_token_set [of t]) (simp_all add: decimal_token_nonempty)

lemma decimal_token_last: "decimal_token t \<Longrightarrow> isdecimal_char (last t)"
  by (rule decimal_token_set [of t]) (simp_all add: decimal_token_nonempty)

lemma decimal_token_no_space: "decimal_token t \<Longrightarrow> \<forall>x\<in>set t. \<not> isspace x"
  by (auto dest: decimal_token_set isdecimal_not_space)

lemma decimal_token_no_newline:
  "decimal_token t \<Longrightarrow> CHR 0x0D \<notin> set t \<and> CHR 0x0A \<notin> set t"
proof -
  assume t: "decimal_token t"
  have "x \<noteq> CHR 0x0D \<and> x \<noteq> CHR 0x0A" if "x \<in> set t" for x
    using decimal_token_set [OF t that] by (simp add: isdecimal_not_special)
  then show ?thesis by blast
qed

lemma decimal_token_isdigit: "decimal_token t \<Longrightarrow> isdigit t"
  by (auto simp: decimal_token_def isdigit_def isdigit_char_def list_all_iff)

lemma py_int_decimal_token: "decimal_token t \<Longrightarrow> py_int t = Inr (decimal_value t)"
  by (simp add: decimal_token_def py_int_def)

lemma py_int_not_decimal_token: "\<not> decimal_token t \<Longrightarrow> py_int t = Inl ValueError"
  by (auto simp: decimal_token_def py_int_def)

lemma decimal_token_value_nonneg: "decimal_token t \<Longrightarrow> 0 \<le> decimal_value t"
  by (simp add: decimal_token_def decimal_value_nonneg)

lemma int_max_str_digits_pos: "0 < int_max_str_digits"
  by (simp add: int_max_str_digits_def)

lemma decimal_token_str_nat:
  "n < 10 ^ int_max_str_digits \<Longrightarrow> decimal_token (str_nat n)"
  by (simp add: decimal_token_def str_nat_nonempty str_nat_decimal
        length_str_nat_le [OF int_max_str_digits_pos])

lemma dropWhile_space_token:
  "decimal_token t \<Longrightarrow> dropWhile isspace (t @ rest) = t @ rest"
  by (rule dropWhile_hd)
     (simp_all add: decimal_token_nonempty decimal_token_hd isdecimal_not_space)

lemma space_chars: "isspace CHR '' ''" "isspace (CHR 0x09)" "isspace (CHR 0x0A)"
  by (simp_all add: isspace_def whitespace_def)

lemma int_all_tokens:
  "list_all decimal_token ts \<Longrightarrow> int_all ts = Inr (map decimal_value ts)"
  by (induction ts) (simp_all add: py_int_decimal_token)

lemma int_all_not_tokens:
  "\<not> list_all decimal_token ts \<Longrightarrow> int_all ts = Inl ValueError"
proof (induction ts)
  case Nil
  then show ?case by simp
next
  case (Cons t ts)
  show ?case
  proof (cases "decimal_token t")
    case False
    then show ?thesis by (simp add: py_int_not_decimal_token)
  next
    case True
    with Cons have "int_all ts = Inl ValueError" by simp
    with True show ?thesis by (simp add: py_int_decimal_token)
  qed
qed

lemma parse_gpl_file_Nil: "parse_gpl_file [] = []"
  by (simp add: parse_gpl_file_def)

lemma parse_terminated_line:
  assumes "CHR 0x0D \<notin> set l" and "CHR 0x0A \<notin> set l"
  shows "parse_gpl_file (l @ [CHR 0x0A]) = (case gpl_line l of None \<Rightarrow> [] | Some c \<Rightarrow> [c])"
proof -
  have "universal_newlines (l @ [CHR 0x0A]) = l @ [CHR 0x0A]"
    using assms(1) by (intro universal_newlines_id) simp
  moreover have "file_lines (l @ [CHR 0x0A]) = [l @ [CHR 0x0A]]"
    using assms(2) by (rule file_lines_terminated)
  moreover have "gpl_line (l @ [CHR 0x0A]) = gpl_line l"
    by (rule gpl_line_snoc_space) (rule space_chars)
  ultimately show ?thesis
    by (simp add: parse_gpl_file_map_filter split: option.splits)
qed

lemma parse_unterminated_line:
  assumes "CHR 0x0D \<notin> set l" and "CHR 0x0A \<notin> set l" and "l \<noteq> []"
  shows "parse_gpl_file l = (case gpl_line l of None \<Rightarrow> [] | Some c \<Rightarrow> [c])"
proof -
  have "universal_newlines l = l"
    using assms(1) by (rule universal_newlines_id)
  moreover have "file_lines l = [l]"
    using assms(2,3) by (rule file_lines_unterminated)
  ultimately show ?thesis
    by (simp add: parse_gpl_file_map_filter split: option.splits)
qed

subsection \<open>A line as the specification reads it\<close>

lemma startswith_hash: "startswith s ''#'' \<longleftrightarrow> s \<noteq> [] \<and> hd s = CHR ''#''"
  by (cases s) (simp_all add: startswith_def)

lemma clamp_channel_eq: "max 0 (min 255 x) = clamp_channel x"
  by (simp add: clamp_channel_def)

lemma gpl_line_spec: "gpl_line l = spec_line_color l"
proof (cases "strip l = [] \<or> hd (strip l) = CHR ''#''")
  case True
  then show ?thesis
    by (auto simp: gpl_line_def spec_line_color_def Let_def startswith_hash)
next
  case False
  let ?ts = "filter isdigit (re_split_ws (strip l))"
  have g: "gpl_line l =
      (case int_all ?ts of
         Inl e \<Rightarrow> None
       | Inr ints \<Rightarrow>
           if length (take 3 ints) \<ge> 3
           then (case map (\<lambda>x. max 0 (min 255 x)) (take 3 (take 3 ints)) of
                   [r, g, b] \<Rightarrow> Some (r, g, b)
                 | _ \<Rightarrow> None)
           else None)"
    using False by (simp add: gpl_line_def Let_def startswith_hash strip_strip split: sum.splits)
  show ?thesis
  proof (cases "list_all decimal_token ?ts")
    case no: False
    then have "int_all ?ts = Inl ValueError" by (rule int_all_not_tokens)
    with no False g show ?thesis by (simp add: spec_line_color_def Let_def)
  next
    case yes: True
    then have i: "int_all ?ts = Inr (map decimal_value ?ts)" by (rule int_all_tokens)
    have s: "spec_line_color l =
        (case ?ts of
           r # g # b # _ \<Rightarrow>
             Some (clamp_channel (decimal_value r), clamp_channel (decimal_value g),
                   clamp_channel (decimal_value b))
         | _ \<Rightarrow> None)"
      using False yes by (simp add: spec_line_color_def Let_def)
    show ?thesis
      unfolding g s i
      by (simp add: clamp_channel_eq split: list.splits)
  qed
qed

lemma parse_gpl_file_spec:
  "parse_gpl_file text = List.map_filter spec_line_color (file_lines (universal_newlines text))"
proof -
  have "gpl_line = spec_line_color" by (rule ext) (rule gpl_line_spec)
  then show ?thesis by (simp add: parse_gpl_file_map_filter)
qed

lemma parse_gpl_file_lines:
  assumes "CHR 0x0D \<notin> set t" and "CHR 0x0A \<notin> set t"
    and "\<forall>l\<in>set ls. CHR 0x0D \<notin> set l \<and> CHR 0x0A \<notin> set l"
  shows "parse_gpl_file (concat (map (\<lambda>l. l @ ''\<newline>'') ls) @ t)
           = List.map_filter spec_line_color (ls @ [t])"
  using assms(3)
proof (induction ls)
  case Nil
  show ?case
  proof (cases "t = []")
    case True
    have "spec_line_color [] = None" by (simp add: spec_line_color_def strip_def)
    with True show ?thesis by (simp add: parse_gpl_file_Nil)
  next
    case False
    with assms(1,2) have "parse_gpl_file t = (case gpl_line t of None \<Rightarrow> [] | Some c \<Rightarrow> [c])"
      by (intro parse_unterminated_line)
    then show ?thesis by (simp add: gpl_line_spec split: option.splits)
  qed
next
  case (Cons l ls)
  let ?rest = "concat (map (\<lambda>l. l @ ''\<newline>'') ls) @ t"
  from Cons.prems have l: "CHR 0x0D \<notin> set l" "CHR 0x0A \<notin> set l" by simp_all
  have "parse_gpl_file (l @ CHR 0x0A # ?rest)
          = parse_gpl_file (l @ [CHR 0x0A]) @ parse_gpl_file ?rest"
    by (rule parse_gpl_file_append_nl)
  also have "parse_gpl_file (l @ [CHR 0x0A]) = (case gpl_line l of None \<Rightarrow> [] | Some c \<Rightarrow> [c])"
    using l by (rule parse_terminated_line)
  also have "parse_gpl_file ?rest = List.map_filter spec_line_color (ls @ [t])"
    using Cons by simp
  finally show ?case by (simp add: gpl_line_spec split: option.splits)
qed

subsection \<open>A line of three decimal tokens\<close>

lemma split_three:
  assumes "decimal_token ta" "decimal_token tb" "decimal_token tc"
  shows "re_split_ws (ta @ CHR '' '' # tb @ CHR '' '' # tc) = [ta, tb, tc]"
proof -
  have "re_split_ws (ta @ CHR '' '' # tb @ CHR '' '' # tc)
      = ta # re_split_ws (dropWhile isspace (tb @ CHR '' '' # tc))"
    using assms(1) by (intro re_split_ws_token_sep decimal_token_no_space space_chars)
  also have "dropWhile isspace (tb @ CHR '' '' # tc) = tb @ CHR '' '' # tc"
    using assms(2) by (rule dropWhile_space_token)
  also have "re_split_ws (tb @ CHR '' '' # tc) = tb # re_split_ws (dropWhile isspace tc)"
    using assms(2) by (intro re_split_ws_token_sep decimal_token_no_space space_chars)
  also have "dropWhile isspace tc = tc"
    using dropWhile_space_token [OF assms(3), of "[]"] by simp
  also have "re_split_ws tc = [tc]"
    using assms(3) by (intro re_split_ws_token decimal_token_no_space)
  finally show ?thesis .
qed

lemma spec_line_three:
  assumes "decimal_token ta" "decimal_token tb" "decimal_token tc"
  shows "spec_line_color (ta @ CHR '' '' # tb @ CHR '' '' # tc)
     = Some (min 255 (decimal_value ta), min 255 (decimal_value tb), min 255 (decimal_value tc))"
proof -
  let ?l = "ta @ CHR '' '' # tb @ CHR '' '' # tc"
  have ne: "?l \<noteq> []" by simp
  have h: "hd ?l = hd ta" using assms(1) by (simp add: decimal_token_nonempty)
  have la: "last ?l = last tc" using assms(3) by (simp add: decimal_token_nonempty)
  have "\<not> isspace (hd ?l)" "\<not> isspace (last ?l)"
    unfolding h la using assms by (simp_all add: decimal_token_hd decimal_token_last isdecimal_not_space)
  with ne have s: "strip ?l = ?l" by (rule strip_id)
  have hash: "hd ?l \<noteq> CHR ''#''"
    unfolding h using decimal_token_hd [OF assms(1)] by (auto dest: isdecimal_not_special)
  have f: "filter isdigit (re_split_ws ?l) = [ta, tb, tc]"
    unfolding split_three [OF assms] using assms by (simp add: decimal_token_isdigit)
  have c: "clamp_channel (decimal_value t) = min 255 (decimal_value t)" if "decimal_token t" for t
    using decimal_token_value_nonneg [OF that] by (simp add: clamp_channel_def)
  have "spec_line_color ?l = Some (clamp_channel (decimal_value ta),
      clamp_channel (decimal_value tb), clamp_channel (decimal_value tc))"
    unfolding spec_line_color_def Let_def s f using ne hash assms by simp
  then show ?thesis using assms by (simp add: c)
qed

subsection \<open>The limit on digits in the writer\<close>

lemma str_int_within: "within_digit_limit i \<Longrightarrow> str_int i = Inr (decimal_str i)"
proof -
  assume "within_digit_limit i"
  then have "int (nat \<bar>i\<bar>) < int (10 ^ int_max_str_digits)"
    by (simp add: within_digit_limit_def)
  then have "nat \<bar>i\<bar> < 10 ^ int_max_str_digits"
    by (simp only: of_nat_less_iff)
  then have "length (str_nat (nat \<bar>i\<bar>)) \<le> int_max_str_digits"
    by (rule length_str_nat_le [OF int_max_str_digits_pos])
  then show ?thesis by (simp add: str_int_def)
qed

lemma str_int_beyond: "10 ^ int_max_str_digits \<le> \<bar>i\<bar> \<Longrightarrow> str_int i = Inl ValueError"
proof -
  assume "10 ^ int_max_str_digits \<le> \<bar>i\<bar>"
  then have "int (10 ^ int_max_str_digits) \<le> int (nat \<bar>i\<bar>)"
    by simp
  then have "10 ^ int_max_str_digits \<le> nat \<bar>i\<bar>"
    by (simp only: of_nat_le_iff)
  then have "int_max_str_digits < length (str_nat (nat \<bar>i\<bar>))"
    by (rule length_str_nat_gt)
  then show ?thesis by (simp add: str_int_def)
qed

lemma str_int_power_limit: "str_int (10 ^ int_max_str_digits) = Inl ValueError"
  by (rule str_int_beyond) simp

lemma within_digit_limit_small: "\<bar>i\<bar> < 1000 \<Longrightarrow> within_digit_limit i"
proof -
  assume a: "\<bar>i\<bar> < 1000"
  have "3 \<le> int_max_str_digits" by (simp add: int_max_str_digits_def)
  then have "(10::int) ^ 3 \<le> 10 ^ int_max_str_digits"
    by (intro power_increasing) simp_all
  moreover have "(10::int) ^ 3 = 1000" by simp
  ultimately have "(1000::int) \<le> 10 ^ int_max_str_digits" by (simp only:)
  with a show ?thesis by (simp add: within_digit_limit_def)
qed

lemma color_line_within:
  "channels_within_limit c \<Longrightarrow> color_line c = Inr (spec_color_text c)"
  by (auto simp: channels_within_limit_def color_line_def spec_color_text_def str_int_within)

lemma color_lines_within:
  "list_all channels_within_limit cs \<Longrightarrow> color_lines cs = Inr (map spec_color_text cs)"
  by (induction cs) (simp_all add: color_line_within)

lemma join_terminated:
  "xs \<noteq> [] \<Longrightarrow> join sep xs @ sep = concat (map (\<lambda>x. x @ sep) xs)"
  by (induction sep xs rule: join.induct) simp_all

section \<open>GPL writer: the claims\<close>

text \<open>
  Claim C10 (empty palette). As stated, for any columns value, the claim fails: the
  conversion of a columns value of more than 4300 digits raises \<open>ValueError\<close>, and the
  writer returns no text.
\<close>

theorem return_gimp_palette_empty_counterexample:
  "return_gimp_palette [] ''x'' (10 ^ 4300) = Inl ValueError"
proof -
  have "return_gimp_palette [] ''x'' (10 ^ int_max_str_digits) = Inl ValueError"
    by (simp add: return_gimp_palette_def str_int_power_limit)
  then show ?thesis by (simp only: int_max_str_digits_def)
qed

text \<open>
  Claim C10, amended: for the empty palette, any name and any columns value of at most
  4300 decimal digits, the GPL writer returns the four header lines followed by one empty
  line: the text ends with \<open>#\n\n\<close>, and is not the header alone.
\<close>

theorem return_gimp_palette_empty:
  assumes "within_digit_limit columns"
  shows "return_gimp_palette [] name columns
     = Inr (''GIMP Palette\<newline>Name: '' @ name @ ''\<newline>Columns: '' @ decimal_str columns
            @ ''\<newline>#\<newline>\<newline>'') \<and>
   return_gimp_palette [] name columns
     \<noteq> Inr (''GIMP Palette\<newline>Name: '' @ name @ ''\<newline>Columns: '' @ decimal_str columns
            @ ''\<newline>#\<newline>'')"
  using assms by (simp add: return_gimp_palette_def str_int_within)

text \<open>The theorem at the name \<open>pal\<close> and 16 columns.\<close>

theorem return_gimp_palette_empty_witness:
  "within_digit_limit 16 \<and>
   return_gimp_palette [] ''pal'' 16 = Inr ''GIMP Palette\<newline>Name: pal\<newline>Columns: 16\<newline>#\<newline>\<newline>''"
proof -
  have w: "within_digit_limit 16" by (rule within_digit_limit_small) simp
  have d: "decimal_str 16 = ''16''" by code_simp
  from return_gimp_palette_empty [OF w, of "''pal''"] w show ?thesis
    by (simp add: d)
qed

text \<open>
  Claim C7 (text of the GPL writer). As stated, for every palette and columns value, the
  claim fails: the conversion of a columns value or of a channel of more than 4300 digits
  raises \<open>ValueError\<close>, and the writer returns no text.
\<close>

theorem return_gimp_palette_text_counterexample:
  "return_gimp_palette [(0, 0, 0)] ''x'' (10 ^ 4300) = Inl ValueError \<and>
   return_gimp_palette [(10 ^ 4300, 0, 0)] ''x'' 0 = Inl ValueError"
proof -
  have z: "str_int 0 = Inr ''0''" by code_simp
  have "return_gimp_palette [(0, 0, 0)] ''x'' (10 ^ int_max_str_digits) = Inl ValueError"
    by (simp add: return_gimp_palette_def color_line_def z str_int_power_limit)
  moreover have "return_gimp_palette [(10 ^ int_max_str_digits, 0, 0)] ''x'' 0 = Inl ValueError"
    by (simp add: return_gimp_palette_def color_line_def str_int_power_limit)
  ultimately show ?thesis by (simp only: int_max_str_digits_def)
qed

text \<open>
  Claim C7, amended: for every non-empty palette, name and columns value, where the
  columns value and every channel have at most 4300 decimal digits, the writer returns the
  four header lines, then one line for each colour in input order: the three channels in
  decimal separated by single spaces, a tab, the label \<open>Untitled\<close>, and a newline, also
  after the last colour. Nothing is removed, sorted or reordered.
\<close>

theorem return_gimp_palette_text:
  assumes "colors \<noteq> []"
    and "list_all channels_within_limit colors"
    and "within_digit_limit columns"
  shows "return_gimp_palette colors name columns
     = Inr (''GIMP Palette\<newline>'' @ ''Name: '' @ name @ ''\<newline>'' @ ''Columns: '' @ decimal_str columns
            @ ''\<newline>'' @ ''#\<newline>''
            @ concat (map (\<lambda>(r, g, b). decimal_str r @ '' '' @ decimal_str g @ '' '' @ decimal_str b
                             @ [CHR 0x09] @ ''Untitled'' @ ''\<newline>'') colors))"
proof -
  have l: "(\<lambda>x. spec_color_text x @ ''\<newline>'')
      = (\<lambda>(r, g, b). decimal_str r @ '' '' @ decimal_str g @ '' '' @ decimal_str b
                        @ [CHR 0x09] @ ''Untitled'' @ ''\<newline>'')"
    by (auto simp: spec_color_text_def fun_eq_iff)
  have "join ''\<newline>'' (map spec_color_text colors) @ ''\<newline>''
      = concat (map (\<lambda>x. x @ ''\<newline>'') (map spec_color_text colors))"
    using assms(1) by (intro join_terminated) simp
  also have "\<dots> = concat (map (\<lambda>x. spec_color_text x @ ''\<newline>'') colors)"
    by (simp add: comp_def)
  finally have "join ''\<newline>'' (map spec_color_text colors) @ ''\<newline>''
      = concat (map (\<lambda>(r, g, b). decimal_str r @ '' '' @ decimal_str g @ '' '' @ decimal_str b
                        @ [CHR 0x09] @ ''Untitled'' @ ''\<newline>'') colors)"
    by (simp only: l)
  then show ?thesis
    using assms(2,3) by (simp add: return_gimp_palette_def color_lines_within str_int_within)
qed

text \<open>The theorem at a palette of three colours, two of them equal.\<close>

theorem return_gimp_palette_text_witness:
  "[(10, 20, 30), (255, 0, 7), (10, 20, 30)] \<noteq> ([] :: color list) \<and>
   list_all channels_within_limit [(10, 20, 30), (255, 0, 7), (10, 20, 30)] \<and>
   within_digit_limit 16 \<and>
   return_gimp_palette [(10, 20, 30), (255, 0, 7), (10, 20, 30)] ''pal'' 16
     = Inr (''GIMP Palette\<newline>Name: pal\<newline>Columns: 16\<newline>#\<newline>10 20 30'' @ [CHR 0x09]
            @ ''Untitled\<newline>255 0 7'' @ [CHR 0x09] @ ''Untitled\<newline>10 20 30'' @ [CHR 0x09]
            @ ''Untitled\<newline>'')"
proof -
  let ?P = "[(10, 20, 30), (255, 0, 7), (10, 20, 30)] :: color list"
  have ne: "?P \<noteq> []" by simp
  have ch: "list_all channels_within_limit ?P"
    by (simp add: channels_within_limit_def within_digit_limit_small)
  have w: "within_digit_limit 16" by (rule within_digit_limit_small) simp
  have e: "''GIMP Palette\<newline>'' @ ''Name: '' @ ''pal'' @ ''\<newline>'' @ ''Columns: '' @ decimal_str 16
            @ ''\<newline>'' @ ''#\<newline>''
            @ concat (map (\<lambda>(r, g, b). decimal_str r @ '' '' @ decimal_str g @ '' '' @ decimal_str b
                             @ [CHR 0x09] @ ''Untitled'' @ ''\<newline>'') ?P)
     = ''GIMP Palette\<newline>Name: pal\<newline>Columns: 16\<newline>#\<newline>10 20 30'' @ [CHR 0x09]
            @ ''Untitled\<newline>255 0 7'' @ [CHR 0x09] @ ''Untitled\<newline>10 20 30'' @ [CHR 0x09]
            @ ''Untitled\<newline>''"
    by code_simp
  have "return_gimp_palette ?P ''pal'' 16
     = Inr (''GIMP Palette\<newline>Name: pal\<newline>Columns: 16\<newline>#\<newline>10 20 30'' @ [CHR 0x09]
            @ ''Untitled\<newline>255 0 7'' @ [CHR 0x09] @ ''Untitled\<newline>10 20 30'' @ [CHR 0x09]
            @ ''Untitled\<newline>'')"
    using return_gimp_palette_text [OF ne ch w, of "''pal''"] by (simp only: e)
  with ne ch w show ?thesis by blast
qed

section \<open>GPL reader: the claims\<close>

text \<open>
  Claim C9 (tolerance of the GPL reader). On the file content of the claim, the header
  lines, the comment line and the line \<open>notanumber\<close> give no colour, and the reader
  returns exactly the two colours of the data lines, in file order.
\<close>

theorem parse_gpl_file_tolerance:
  "parse_gpl_file (''GIMP Palette\<newline>Name: Test\<newline>Columns: 2\<newline>#\<newline>10 20 30'' @ [CHR 0x09]
       @ ''Untitled\<newline>notanumber\<newline>40 50 60\<newline>'')
     = [(10, 20, 30), (40, 50, 60)]"
  by code_simp

text \<open>
  Claim C4 (clamping in the GPL reader). As stated the claim fails: in the line
  \<open>300 -10 128\<close> the token \<open>-10\<close> is not made of digits only, so the line has two
  numeric tokens and the reader leaves it out; it returns no colour.
\<close>

theorem parse_gpl_file_signed_counterexample:
  "parse_gpl_file ''300 -10 128'' = []"
  by code_simp

text \<open>
  Claim C4, amended: a data line of three unsigned decimal integers (digits only, at most
  4300 of them each, leading zeros allowed), separated by single spaces, with or without
  its newline, parses to the single colour of those values, each one clamped into 0..255
  (a value above 255 becomes 255).
\<close>

theorem parse_gpl_file_clamps:
  assumes "decimal_token ta" and "decimal_token tb" and "decimal_token tc"
  shows "parse_gpl_file (ta @ '' '' @ tb @ '' '' @ tc)
           = [(min 255 (decimal_value ta), min 255 (decimal_value tb), min 255 (decimal_value tc))] \<and>
         parse_gpl_file (ta @ '' '' @ tb @ '' '' @ tc @ ''\<newline>'')
           = [(min 255 (decimal_value ta), min 255 (decimal_value tb), min 255 (decimal_value tc))]"
proof -
  let ?l = "ta @ CHR '' '' # tb @ CHR '' '' # tc"
  have n: "CHR 0x0D \<notin> set ?l" "CHR 0x0A \<notin> set ?l"
    using assms by (simp_all add: decimal_token_no_newline)
  have "parse_gpl_file (concat (map (\<lambda>l. l @ ''\<newline>'') []) @ ?l)
      = List.map_filter spec_line_color ([] @ [?l])"
    using n by (intro parse_gpl_file_lines) simp_all
  moreover have "parse_gpl_file (concat (map (\<lambda>l. l @ ''\<newline>'') [?l]) @ [])
      = List.map_filter spec_line_color ([?l] @ [[]])"
    using n by (intro parse_gpl_file_lines) simp_all
  moreover have "spec_line_color [] = None"
    by (simp add: spec_line_color_def strip_def)
  ultimately show ?thesis
    by (simp add: spec_line_three [OF assms])
qed

text \<open>The theorem at the line \<open>300 0 0128\<close>, which parses to \<open>(255, 0, 128)\<close>.\<close>

theorem parse_gpl_file_clamps_witness:
  "decimal_token ''300'' \<and> decimal_token ''0'' \<and> decimal_token ''0128'' \<and>
   parse_gpl_file ''300 0 0128'' = [(255, 0, 128)] \<and>
   parse_gpl_file ''300 0 0128\<newline>'' = [(255, 0, 128)]"
proof -
  have t: "decimal_token ''300''" "decimal_token ''0''" "decimal_token ''0128''"
    by (simp_all add: decimal_token_def isdecimal_char_def int_max_str_digits_def)
  have v: "decimal_value ''300'' = 300" "decimal_value ''0'' = 0" "decimal_value ''0128'' = 128"
    by (simp_all add: decimal_value_def digit_value_def)
  from parse_gpl_file_clamps [OF t] t show ?thesis
    by (simp add: v)
qed

text \<open>
  Claim C6 (write, read, write of GPL text). The claim is that for a palette with
  entries in 0..255 and every name and columns value, writing, reading back and writing
  again gives the text of the first write. The code does otherwise when the name holds
  three numbers: the reader, which is to skip the header lines, reads the header line
  \<open>Name: 8 16 32 colors.gpl\<close> as the colour \<open>(8, 16, 32)\<close>. At the palette
  \<open>[(10, 20, 30)]\<close> with that name the reader returns two colours from the text
  written, and the second write has one colour line more than the first.
\<close>

theorem gpl_write_read_write_header_as_color:
  "return_gimp_palette [(10, 20, 30)] ''8 16 32 colors.gpl'' 0
     = Inr (''GIMP Palette\<newline>Name: 8 16 32 colors.gpl\<newline>Columns: 0\<newline>#\<newline>10 20 30'' @ [CHR 0x09]
            @ ''Untitled\<newline>'') \<and>
   parse_gpl_file (''GIMP Palette\<newline>Name: 8 16 32 colors.gpl\<newline>Columns: 0\<newline>#\<newline>10 20 30''
                   @ [CHR 0x09] @ ''Untitled\<newline>'')
     = [(8, 16, 32), (10, 20, 30)] \<and>
   return_gimp_palette [(8, 16, 32), (10, 20, 30)] ''8 16 32 colors.gpl'' 0
     = Inr (''GIMP Palette\<newline>Name: 8 16 32 colors.gpl\<newline>Columns: 0\<newline>#\<newline>8 16 32'' @ [CHR 0x09]
            @ ''Untitled\<newline>10 20 30'' @ [CHR 0x09] @ ''Untitled\<newline>'')"
  by code_simp

lemma map_filter_SomeD:
  "c \<in> set (List.map_filter g xs) \<Longrightarrow> \<exists>x\<in>set xs. g x = Some c"
  by (induction xs) (auto split: option.splits)

lemma byte_in_range: "0 \<le> uint (w :: byte) \<and> uint w \<le> 255"
  using uint_lt2p [of w] by simp

lemma group_at_in_range: "in_range (group_at bs i)"
  by (simp add: in_range_def group_at_def byte_in_range)

lemma parse_adobe_act_InrD:
  assumes "parse_adobe_act bs = Inr cs"
  shows "3 * spec_color_count bs \<le> length bs"
    and "cs = map (group_at bs) [0..<spec_color_count bs]"
proof -
  show fits: "3 * spec_color_count bs \<le> length bs"
  proof (rule ccontr)
    assume "\<not> 3 * spec_color_count bs \<le> length bs"
    then have "parse_adobe_act bs = Inl StructError"
      by (intro parse_adobe_act_short_aux) simp
    with assms show False by simp
  qed
  from parse_adobe_act_fits_aux [OF fits] assms
  show "cs = map (group_at bs) [0..<spec_color_count bs]" by simp
qed

text \<open>
  Claim C8 (what the readers return). For every input, every colour returned by the
  GPL reader or by the ACT reader has its three channels within 0..255. Partial and
  malformed entries are dropped and nothing stands in for them: the GPL reader returns
  exactly the colours of the well-formed data lines, in order, one for each such line and
  none for any other line (for every text as its reader splits it into lines, and for the
  text made of given lines); the colours the ACT reader returns are exactly the leading
  whole 3-byte groups of the file, so a trailing partial group gives no colour.
\<close>

theorem readers_return_formed_colors:
  "(\<forall>c\<in>set (parse_gpl_file text). in_range c) \<and>
   parse_gpl_file text = List.map_filter spec_line_color (file_lines (universal_newlines text)) \<and>
   ((\<forall>l\<in>set (t # ls). CHR 0x0D \<notin> set l \<and> CHR 0x0A \<notin> set l) \<longrightarrow>
      parse_gpl_file (concat (map (\<lambda>l. l @ ''\<newline>'') ls) @ t)
        = List.map_filter spec_line_color (ls @ [t])) \<and>
   (\<forall>cs. parse_adobe_act bs = Inr cs \<longrightarrow>
      (\<forall>c\<in>set cs. in_range c) \<and> cs = map (group_at bs) [0..<length cs] \<and>
      3 * length cs \<le> length bs)"
proof (intro conjI allI impI)
  show "\<forall>c\<in>set (parse_gpl_file text). in_range c"
    unfolding parse_gpl_file_map_filter
    by (blast dest: map_filter_SomeD gpl_line_in_range)
  show "parse_gpl_file text = List.map_filter spec_line_color (file_lines (universal_newlines text))"
    by (rule parse_gpl_file_spec)
next
  assume "\<forall>l\<in>set (t # ls). CHR 0x0D \<notin> set l \<and> CHR 0x0A \<notin> set l"
  then show "parse_gpl_file (concat (map (\<lambda>l. l @ ''\<newline>'') ls) @ t)
        = List.map_filter spec_line_color (ls @ [t])"
    by (intro parse_gpl_file_lines) simp_all
next
  fix cs
  assume a: "parse_adobe_act bs = Inr cs"
  from parse_adobe_act_InrD(2) [OF a] show "\<forall>c\<in>set cs. in_range c"
    by (auto simp: group_at_in_range)
  from parse_adobe_act_InrD(2) [OF a] have n: "length cs = spec_color_count bs" by simp
  from parse_adobe_act_InrD(2) [OF a] show "cs = map (group_at bs) [0..<length cs]"
    unfolding n .
  from parse_adobe_act_InrD(1) [OF a] show "3 * length cs \<le> length bs"
    unfolding n .
qed


text \<open>
  The theorem at a text with an out-of-range value, a line of two numbers, a comment
  line with three, an empty line, and a line whose third token is not a number; and at
  a file of four bytes, whose last byte is a partial entry.
\<close>

theorem readers_return_formed_colors_witness:
  "parse_gpl_file ''1 2 300\<newline>7 8\<newline># 4 5 6\<newline>\<newline>1 2 x\<newline>9 8 7'' = [(1, 2, 255), (9, 8, 7)] \<and>
   in_range (1, 2, 255) \<and> in_range (9, 8, 7) \<and>
   List.map_filter spec_line_color [''1 2 300'', ''7 8'', ''# 4 5 6'', [], ''1 2 x'', ''9 8 7'']
     = [(1, 2, 255), (9, 8, 7)] \<and>
   parse_adobe_act [1, 2, 255, 4] = Inr [(1, 2, 255)] \<and>
   [(1, 2, 255)] = map (group_at [1, 2, 255, 4]) [0..<length [(1, 2, 255) :: color]] \<and>
   3 * length [(1, 2, 255) :: color] \<le> length [1, 2, 255, 4 :: byte]"
proof -
  let ?text = "''1 2 300\<newline>7 8\<newline># 4 5 6\<newline>\<newline>1 2 x\<newline>9 8 7''"
  let ?ls = "[''1 2 300'', ''7 8'', ''# 4 5 6'', [], ''1 2 x'']"
  let ?t = "''9 8 7''"
  let ?bs = "[1, 2, 255, 4] :: byte list"
  note th = readers_return_formed_colors [of ?text ?t ?ls ?bs]
  have g: "parse_gpl_file ?text = [(1, 2, 255), (9, 8, 7)]"
    by code_simp
  have p: "parse_adobe_act ?bs = Inr [(1, 2, 255)]"
    by code_simp
  from th have r: "\<forall>c\<in>set (parse_gpl_file ?text). in_range c"
    by (rule conjunct1)
  have h: "\<forall>l\<in>set (?t # ?ls). CHR 0x0D \<notin> set l \<and> CHR 0x0A \<notin> set l"
    by simp
  from th have "(\<forall>l\<in>set (?t # ?ls). CHR 0x0D \<notin> set l \<and> CHR 0x0A \<notin> set l) \<longrightarrow>
      parse_gpl_file (concat (map (\<lambda>l. l @ ''\<newline>'') ?ls) @ ?t)
        = List.map_filter spec_line_color (?ls @ [?t])"
    by blast
  with h have "parse_gpl_file (concat (map (\<lambda>l. l @ ''\<newline>'') ?ls) @ ?t)
        = List.map_filter spec_line_color (?ls @ [?t])"
    by (rule rev_mp)
  then have l: "List.map_filter spec_line_color (?ls @ [?t]) = [(1, 2, 255), (9, 8, 7)]"
    using g by simp
  from th have "\<forall>cs. parse_adobe_act ?bs = Inr cs \<longrightarrow>
      (\<forall>c\<in>set cs. in_range c) \<and> cs = map (group_at ?bs) [0..<length cs] \<and>
      3 * length cs \<le> length ?bs"
    by blast
  with p have a: "(\<forall>c\<in>set [(1, 2, 255)]. in_range c) \<and>
      [(1, 2, 255)] = map (group_at ?bs) [0..<length [(1, 2, 255) :: color]] \<and>
      3 * length [(1, 2, 255) :: color] \<le> length ?bs"
    by blast
  from r g have "in_range (1, 2, 255)" "in_range (9, 8, 7)" by simp_all
  with g l p a show ?thesis by simp
qed

end
